theory Spec2Isabelle
  imports Main
begin

section \<open>Data model of the application core (source/main.ts)\<close>

text \<open>
  The class \<open>Main\<close> of \<^verbatim>\<open>source/main.ts\<close> is embedded as pure functions. Mutation
  of \<open>this\<close> and of the request is explicit state passing; a thrown exception is a
  value of type \<open>error\<close>; every call that leaves the class (a logger callback, a
  service operation, \<open>match.next()\<close> of the router, the construction and call of a
  handler method) is recorded, in program order, in a list of events that the function
  returns next to its result.

  The router (\<^verbatim>\<open>@singleware/routing\<close>) and the handler classes are not part of the
  repository. They are parameters of the model (record \<open>externals\<close> below). Loggers
  and services are sinks: their callbacks return normally and are visible only as events.
\<close>

subsection \<open>Values, errors and enumerations\<close>

text \<open>What a handler method may hand back: only \<open>=== true\<close> is ever inspected.\<close>

datatype jsval = Undefined | Boolean bool | Text string

text \<open>\<open>new Error(msg)\<close> and \<open>new TypeError(msg)\<close>.\<close>

datatype error = JsError string | JsTypeError string

text \<open>
  The enumerations \<open>Types.Request\<close>, \<open>Types.Action\<close> and \<open>Types.Route\<close>. The
  last constructor of each stands for any run-time value outside the enumeration, which
  is what the \<open>default:\<close> branches of the source are written for.
\<close>

datatype request_type = Receive | Process | Send | Error | OtherRequest string

datatype action_type = Start | Stop | OtherAction string

datatype route_type = Filter | Processor | OtherRoute string

type_synonym variables = "string \<rightharpoonup> string"

type_synonym handler = string
type_synonym logger = string
type_synonym service = string

subsection \<open>Actions, routes and installed router entries\<close>

text \<open>
  Interface \<open>Action\<close>: \<open>path\<close>, \<open>exact?\<close>, \<open>constraint?\<close>, \<open>environment?\<close>. The two
  fields whose names the request also has carry the prefix \<open>action_\<close>.
\<close>

record action =
  action_path :: string
  exact :: "bool option"
  constraint :: "string option"
  action_environment :: "variables option"

record route =
  rtype :: route_type
  raction :: action
  rmethod :: string

text \<open>
  What \<open>addHandler\<close> passes to \<open>Router.add\<close>: the action fields and the \<open>onMatch\<close>
  closure. The closure is represented by what it captures (\<open>handler\<close>, \<open>route.method\<close>,
  \<open>parameters\<close>); its body is \<open>filterOnMatch\<close> or \<open>processorOnMatch\<close> below,
  according to the router that holds the entry.
\<close>

record entry =
  eaction :: action
  ehandler :: handler
  emethod :: string
  eparameters :: "jsval list"

subsection \<open>Requests, matches and events\<close>

record environment =
  local :: variables

record ('i, 'o) request =
  path :: string
  req_input :: 'i
  req_output :: 'o
  environment :: environment
  granted :: "bool option"
  error :: "string option"

text \<open>
  A match as a callback sees it: the variables of the current candidate and the detail,
  which is the request itself (\<open>match(request.path, request)\<close>).
\<close>

record ('i, 'o) match =
  variables :: variables
  detail :: "('i, 'o) request"

datatype ('i, 'o) event =
    OnReceive logger "('i, 'o) request"
  | OnProcess logger "('i, 'o) request"
  | OnSend logger "('i, 'o) request"
  | OnError logger "('i, 'o) request"
  | OnStart logger
  | OnStop logger
  | Subscribe service request_type
  | Unsubscribe service request_type
  | ServiceStart service
  | ServiceStop service
  | Advanced route_type entry "('i, 'o) match"
  | Called handler string "jsval list" "('i, 'o) match"

datatype outcome = Returns jsval | Throws string

text \<open>
  The parts that live outside the repository.
  \<^item> \<open>invoke h m ps mt\<close> is \<open>new h(...ps)[m](mt)\<close>: the outcome of the call and the
    request (\<open>mt.detail\<close>) as the call leaves it.
  \<^item> \<open>route_match es p\<close> is \<open>Router.match(p, request)\<close> on a router holding the
    entries \<open>es\<close>: the candidates in the router's order, each with its variables.
\<close>

record ('i, 'o) externals =
  invoke :: "handler \<Rightarrow> string \<Rightarrow> jsval list \<Rightarrow> ('i, 'o) match \<Rightarrow> outcome \<times> ('i, 'o) request"
  route_match :: "entry list \<Rightarrow> string \<Rightarrow> (variables \<times> entry) list"

subsection \<open>The application object\<close>

record main =
  started :: bool
  services :: "service list"
  loggers :: "logger list"
  filters :: "entry list"
  processors :: "entry list"

text \<open>The static \<open>Main.routes\<close> (a WeakMap from handler classes to route lists).\<close>

type_synonym route_table = "handler \<rightharpoonup> route list"

definition addRoute :: "route_table \<Rightarrow> handler \<Rightarrow> route \<Rightarrow> route_table" where
  "addRoute routes h r =
     routes(h \<mapsto> (case routes h of None \<Rightarrow> [] | Some list \<Rightarrow> list) @ [r])"

section \<open>Notification hub\<close>

text \<open>
  \<open>notifyRequest\<close>: the loop over \<open>this.loggers\<close> with the \<open>switch\<close> inside. The
  snapshot \<open>copy = Object.freeze({ ...request })\<close> is a new object holding the
  request's fields as they are at the time of the call; every logger receives that one
  object. Requests are values here, so the copy is the value of the request at the call:
  later assignments to the request's own fields do not reach it. That the copy is frozen
  and that nested objects are shared with the request cannot be observed through
  loggers that are sinks, and is not represented.
\<close>

fun notifyRequest_loop ::
  "request_type \<Rightarrow> ('i, 'o) request \<Rightarrow> logger list \<Rightarrow> error option \<times> ('i, 'o) event list" where
  "notifyRequest_loop t copy [] = (None, [])"
| "notifyRequest_loop t copy (l # ls) =
     (case t of
        Receive \<Rightarrow> (case notifyRequest_loop t copy ls of (r, evs) \<Rightarrow> (r, OnReceive l copy # evs))
      | Process \<Rightarrow> (case notifyRequest_loop t copy ls of (r, evs) \<Rightarrow> (r, OnProcess l copy # evs))
      | Send \<Rightarrow> (case notifyRequest_loop t copy ls of (r, evs) \<Rightarrow> (r, OnSend l copy # evs))
      | Error \<Rightarrow> (case notifyRequest_loop t copy ls of (r, evs) \<Rightarrow> (r, OnError l copy # evs))
      | OtherRequest x \<Rightarrow>
          (Some (JsTypeError (''Request type '' @ [CHR 0x27] @ x @ [CHR 0x27] @ '' doesn't supported.'')), []))"

definition notifyRequest ::
  "main \<Rightarrow> request_type \<Rightarrow> ('i, 'o) request \<Rightarrow> error option \<times> ('i, 'o) event list" where
  "notifyRequest app t request = notifyRequest_loop t request (loggers app)"

fun notifyAction_loop :: "action_type \<Rightarrow> logger list \<Rightarrow> error option \<times> ('i, 'o) event list" where
  "notifyAction_loop t [] = (None, [])"
| "notifyAction_loop t (l # ls) =
     (case t of
        Start \<Rightarrow> (case notifyAction_loop t ls of (r, evs) \<Rightarrow> (r, OnStart l # evs))
      | Stop \<Rightarrow> (case notifyAction_loop t ls of (r, evs) \<Rightarrow> (r, OnStop l # evs))
      | OtherAction x \<Rightarrow>
          (Some (JsTypeError (''Action type '' @ [CHR 0x27] @ x @ [CHR 0x27] @ '' doesn't supported.'')), []))"

definition notifyAction :: "main \<Rightarrow> action_type \<Rightarrow> error option \<times> ('i, 'o) event list" where
  "notifyAction app t = notifyAction_loop t (loggers app)"

section \<open>Dispatch pipeline\<close>

text \<open>JavaScript truthiness of \<open>request.granted\<close> (\<open>undefined\<close> is \<open>None\<close>).\<close>

definition truthy :: "bool option \<Rightarrow> bool" where
  "truthy g = (g = Some True)"

text \<open>\<open>request.environment.local\<close> read and assigned.\<close>

definition get_local :: "('i, 'o) request \<Rightarrow> variables" where
  "get_local request = local (environment request)"

definition set_local :: "variables \<Rightarrow> ('i, 'o) request \<Rightarrow> ('i, 'o) request" where
  "set_local v request = request\<lparr>environment := (environment request)\<lparr>local := v\<rparr>\<rparr>"

text \<open>
  \<open>performHandler\<close>: \<open>try { result = await new handler(...parameters)[method](match) }
  catch (error) { match.detail.error = error; this.notifyRequest(Error, match.detail) }
  finally { return result }\<close>. The \<open>return\<close> in \<open>finally\<close> discards whatever the
  \<open>catch\<close> block might throw, so the function always returns a value.
\<close>

definition performHandler ::
  "('i, 'o) externals \<Rightarrow> main \<Rightarrow> handler \<Rightarrow> string \<Rightarrow> jsval list \<Rightarrow> ('i, 'o) match
     \<Rightarrow> jsval \<times> ('i, 'o) request \<times> ('i, 'o) event list" where
  "performHandler W app h method parameters mt =
     (case invoke W h method parameters mt of
        (Returns result, r) \<Rightarrow> (result, r, [Called h method parameters mt])
      | (Throws err, r) \<Rightarrow>
          (let d = r\<lparr>error := Some err\<rparr>
           in (Undefined, d, Called h method parameters mt # snd (notifyRequest app Error d))))"

text \<open>The two protected hooks, as \<open>Main\<close> defines them.\<close>

definition filterHandler :: "('i, 'o) match \<Rightarrow> bool \<Rightarrow> bool" where
  "filterHandler mt allows = allows"

definition processHandler ::
  "('i, 'o) match \<Rightarrow> (('i, 'o) match \<Rightarrow> jsval \<times> ('i, 'o) request \<times> ('i, 'o) event list)
     \<Rightarrow> ('i, 'o) request \<times> ('i, 'o) event list" where
  "processHandler mt callback = (case callback mt of (result, r, evs) \<Rightarrow> (r, evs))"

text \<open>
  The \<open>onMatch\<close> closure that \<open>addHandler\<close> installs for a filter route:
  \<open>allows = (await performHandler(...)) === true;
  match.detail.granted = (await this.filterHandler(match, allows)) && allows === true\<close>.
\<close>

definition filterOnMatch ::
  "('i, 'o) externals \<Rightarrow> main \<Rightarrow> entry \<Rightarrow> ('i, 'o) match \<Rightarrow> ('i, 'o) request \<times> ('i, 'o) event list" where
  "filterOnMatch W app e mt =
     (case performHandler W app (ehandler e) (emethod e) (eparameters e) mt of
        (result, r, evs) \<Rightarrow>
          (let allows = (result = Boolean True)
           in (r\<lparr>granted := Some (filterHandler (mt\<lparr>detail := r\<rparr>) allows \<and> allows = True)\<rparr>, evs)))"

text \<open>
  The closure for a processor route:
  \<open>callback = this.performHandler.bind(this, handler, route.method, parameters);
  await this.processHandler(match, callback)\<close>.
\<close>

definition processorOnMatch ::
  "('i, 'o) externals \<Rightarrow> main \<Rightarrow> entry \<Rightarrow> ('i, 'o) match \<Rightarrow> ('i, 'o) request \<times> ('i, 'o) event list" where
  "processorOnMatch W app e mt =
     processHandler mt (performHandler W app (ehandler e) (emethod e) (eparameters e))"

text \<open>
  \<open>performFilters\<close>. The match object is the list of remaining candidates:
  \<open>match.length\<close> is its length, \<open>match.variables\<close> the variables of its head, and
  \<open>match.next()\<close> runs the head's callback and drops it.
\<close>

fun performFilters_loop ::
  "('i, 'o) externals \<Rightarrow> main \<Rightarrow> variables \<Rightarrow> variables \<Rightarrow> (variables \<times> entry) list
     \<Rightarrow> ('i, 'o) request \<Rightarrow> ('i, 'o) request \<times> ('i, 'o) event list" where
  "performFilters_loop W app vars lcl [] request = (request, [])"
| "performFilters_loop W app vars lcl ((mv, e) # ms) request =
     (if truthy (granted request) then
        (let r1 = set_local (vars ++ mv ++ lcl) request;
             mt = \<lparr>variables = mv, detail = r1\<rparr>
         in case filterOnMatch W app e mt of
              (r2, evs) \<Rightarrow>
                (case performFilters_loop W app vars lcl ms (set_local lcl r2) of
                   (r4, evs') \<Rightarrow> (r4, Advanced Filter e mt # evs @ evs')))
      else (request, []))"

definition performFilters ::
  "('i, 'o) externals \<Rightarrow> main \<Rightarrow> ('i, 'o) request \<Rightarrow> variables
     \<Rightarrow> bool \<times> ('i, 'o) request \<times> ('i, 'o) event list" where
  "performFilters W app request vars =
     (let lcl = get_local request;
          ms = route_match W (filters app) (path request)
      in case performFilters_loop W app vars lcl ms request of
           (r, evs) \<Rightarrow> (truthy (granted r), r, evs))"

text \<open>\<open>receiveHandler\<close>: the loop, then the function with its two notifications.\<close>

fun receiveHandler_loop ::
  "('i, 'o) externals \<Rightarrow> main \<Rightarrow> variables \<Rightarrow> (variables \<times> entry) list
     \<Rightarrow> ('i, 'o) request \<Rightarrow> ('i, 'o) request \<times> ('i, 'o) event list" where
  "receiveHandler_loop W app lcl [] request = (request, [])"
| "receiveHandler_loop W app lcl ((mv, e) # ms) request =
     (case performFilters W app request mv of
        (ok, r0, fevs) \<Rightarrow>
          if ok then
            (let r1 = set_local (mv ++ lcl) r0;
                 mt = \<lparr>variables = mv, detail = r1\<rparr>
             in case processorOnMatch W app e mt of
                  (r2, evs) \<Rightarrow>
                    (case receiveHandler_loop W app lcl ms (set_local lcl r2) of
                       (r4, evs') \<Rightarrow> (r4, fevs @ Advanced Processor e mt # evs @ evs')))
          else (r0, fevs))"

definition receiveHandler ::
  "('i, 'o) externals \<Rightarrow> main \<Rightarrow> ('i, 'o) request
     \<Rightarrow> error option \<times> ('i, 'o) request \<times> ('i, 'o) event list" where
  "receiveHandler W app request =
     (case notifyRequest app Receive request of
        (Some err, evs) \<Rightarrow> (Some err, request, evs)
      | (None, evs) \<Rightarrow>
          (let lcl = get_local request;
               ms = route_match W (processors app) (path request)
           in case receiveHandler_loop W app lcl ms request of
                (r, levs) \<Rightarrow>
                  (case notifyRequest app Process r of
                     (res, pevs) \<Rightarrow> (res, r, evs @ levs @ pevs))))"

definition sendHandler :: "main \<Rightarrow> ('i, 'o) request \<Rightarrow> error option \<times> ('i, 'o) event list" where
  "sendHandler app request = notifyRequest app Send request"

definition errorHandler :: "main \<Rightarrow> ('i, 'o) request \<Rightarrow> error option \<times> ('i, 'o) event list" where
  "errorHandler app request = notifyRequest app Error request"

section \<open>Configuration and lifecycle\<close>

text \<open>
  \<open>addHandler\<close>: the guard, then the loop over the routes registered for the handler
  class. \<open>Router.add\<close> appends the entry to the router. An unsupported route type throws
  in the middle of the loop, after the earlier routes have been added.
\<close>

fun addHandler_loop ::
  "handler \<Rightarrow> jsval list \<Rightarrow> route list \<Rightarrow> main \<Rightarrow> error option \<times> main" where
  "addHandler_loop h parameters [] app = (None, app)"
| "addHandler_loop h parameters (r # rs) app =
     (case rtype r of
        Filter \<Rightarrow>
          addHandler_loop h parameters rs
            (app\<lparr>filters := filters app @
               [\<lparr>eaction = raction r, ehandler = h, emethod = rmethod r, eparameters = parameters\<rparr>]\<rparr>)
      | Processor \<Rightarrow>
          addHandler_loop h parameters rs
            (app\<lparr>processors := processors app @
               [\<lparr>eaction = (raction r)\<lparr>exact :=
                    (if exact (raction r) = None then Some True else exact (raction r))\<rparr>,
                 ehandler = h, emethod = rmethod r, eparameters = parameters\<rparr>]\<rparr>)
      | OtherRoute x \<Rightarrow> (Some (JsTypeError (''Unsupported route type '' @ x)), app))"

definition addHandler ::
  "route_table \<Rightarrow> main \<Rightarrow> handler \<Rightarrow> jsval list \<Rightarrow> error option \<times> main" where
  "addHandler routes app h parameters =
     (if started app
      then (Some (JsError ''To add new handlers the application must be stopped.''), app)
      else addHandler_loop h parameters (case routes h of None \<Rightarrow> [] | Some list \<Rightarrow> list) app)"

text \<open>
  \<open>addService\<close> and \<open>addLogger\<close> take a class (instantiated with the parameters) or
  an instance. \<open>instantiate\<close> stands for \<open>new service(...parameters)\<close>.
\<close>

datatype 'a provided = Class string | Instance 'a

definition instantiate :: "string \<Rightarrow> jsval list \<Rightarrow> string" where
  "instantiate c parameters = c"

definition addService ::
  "main \<Rightarrow> service provided \<Rightarrow> jsval list \<Rightarrow> (error + service) \<times> main" where
  "addService app service parameters =
     (if started app
      then (Inl (JsError ''To add new services the application must be stopped.''), app)
      else (let s = (case service of Class c \<Rightarrow> instantiate c parameters | Instance s \<Rightarrow> s)
            in (Inr s, app\<lparr>services := services app @ [s]\<rparr>)))"

definition addLogger ::
  "main \<Rightarrow> logger provided \<Rightarrow> jsval list \<Rightarrow> (error + logger) \<times> main" where
  "addLogger app logger parameters =
     (if started app
      then (Inl (JsError ''To add new loggers service the application must be stopped.''), app)
      else (let l = (case logger of Class c \<Rightarrow> instantiate c parameters | Instance l \<Rightarrow> l)
            in (Inr l, app\<lparr>loggers := loggers app @ [l]\<rparr>)))"

text \<open>\<open>start\<close> and \<open>stop\<close>, with the calls on each service in the source's order.\<close>

definition start :: "main \<Rightarrow> error option \<times> main \<times> ('i, 'o) event list" where
  "start app =
     (if started app then (Some (JsError ''Application was already started.''), app, [])
      else case notifyAction app Start of
             (Some err, evs) \<Rightarrow> (Some err, app, evs)
           | (None, evs) \<Rightarrow>
               (None, app\<lparr>started := True\<rparr>,
                evs @ concat (map (\<lambda>s. [Subscribe s Receive, Subscribe s Send,
                                         Subscribe s Error, ServiceStart s]) (services app))))"

definition stop :: "main \<Rightarrow> error option \<times> main \<times> ('i, 'o) event list" where
  "stop app =
     (if \<not> started app then (Some (JsError ''Application wasn't started.''), app, [])
      else case notifyAction (app\<lparr>started := False\<rparr>) Stop of
             (res, evs) \<Rightarrow>
               (res, app\<lparr>started := False\<rparr>,
                concat (map (\<lambda>s. [ServiceStop s, Unsubscribe s Receive, Unsubscribe s Send,
                                   Unsubscribe s Error]) (services app)) @ evs))"

section \<open>Reading event lists\<close>

text \<open>
  Projections and predicates on the events of a dispatch, used to state its properties:
  which candidates were advanced, which handler methods were called, and what a callback
  saw when it was entered.
\<close>

fun advanced :: "('i, 'o) event list \<Rightarrow> (route_type \<times> entry) list" where
  "advanced [] = []"
| "advanced (Advanced k e mt # evs) = (k, e) # advanced evs"
| "advanced (ev # evs) = advanced evs"

fun called :: "('i, 'o) event list \<Rightarrow> (handler \<times> string) list" where
  "called [] = []"
| "called (Called h m ps mt # evs) = (h, m) # called evs"
| "called (ev # evs) = called evs"

text \<open>The local environment each advanced candidate saw, in order.\<close>

fun seen_local :: "('i, 'o) event list \<Rightarrow> variables list" where
  "seen_local [] = []"
| "seen_local (Advanced k e mt # evs) = get_local (detail mt) # seen_local evs"
| "seen_local (ev # evs) = seen_local evs"

text \<open>Events that the loops of \<open>receiveHandler\<close> can produce by themselves.\<close>

fun pipeline_event :: "('i, 'o) event \<Rightarrow> bool" where
  "pipeline_event (Advanced k e mt) = True"
| "pipeline_event (Called h m ps mt) = True"
| "pipeline_event (OnError l d) = True"
| "pipeline_event ev = False"

text \<open>
  \<open>scoped l seeds ev\<close>: if \<open>ev\<close> is the advance of a filter candidate, the local
  environment it sees is a seed, overridden by the candidate's own variables, overridden
  by \<open>l\<close>; if it is the advance of a processor candidate, it is the candidate's own
  variables overridden by \<open>l\<close>.
\<close>

fun scoped :: "variables \<Rightarrow> variables list \<Rightarrow> ('i, 'o) event \<Rightarrow> bool" where
  "scoped l seeds (Advanced Filter e mt) =
     (\<exists>seed \<in> set seeds. get_local (detail mt) = seed ++ variables mt ++ l)"
| "scoped l seeds (Advanced Processor e mt) = (get_local (detail mt) = variables mt ++ l)"
| "scoped l seeds (Advanced (OtherRoute x) e mt) = False"
| "scoped l seeds ev = True"

text \<open>\<open>keeps l ev\<close>: an advanced candidate sees every binding of \<open>l\<close> unchanged.\<close>

fun keeps :: "variables \<Rightarrow> ('i, 'o) event \<Rightarrow> bool" where
  "keeps l (Advanced k e mt) = (\<forall>x \<in> dom l. get_local (detail mt) x = l x)"
| "keeps l ev = True"

text \<open>\<open>seen_granted ev\<close>: a candidate is advanced only while the request is granted.\<close>

fun seen_granted :: "('i, 'o) event \<Rightarrow> bool" where
  "seen_granted (Advanced k e mt) = truthy (granted (detail mt))"
| "seen_granted ev = True"

section \<open>A concrete application\<close>

text \<open>
  One handler class, \<open>Gate\<close>, a router that matches in registration order (the whole
  path when \<open>exact\<close> is true, a prefix of it otherwise) and gives each candidate the
  route's static environment as its variables, and a few applications built from them.
  The general theorems below are instantiated on these.
\<close>

definition gate_invoke ::
  "handler \<Rightarrow> string \<Rightarrow> jsval list \<Rightarrow> (string, string) match
     \<Rightarrow> outcome \<times> (string, string) request" where
  "gate_invoke h m ps mt =
     (if m = ''allow'' then (Returns (Boolean True), detail mt)
      else if m = ''deny'' then (Returns (Boolean False), detail mt)
      else if m = ''work'' then (Returns Undefined, (detail mt)\<lparr>req_output := ''ok''\<rparr>)
      else (Throws ''boom'', detail mt))"

definition ordered_match :: "entry list \<Rightarrow> string \<Rightarrow> (variables \<times> entry) list" where
  "ordered_match es p =
     map (\<lambda>e. (case action_environment (eaction e) of None \<Rightarrow> Map.empty | Some v \<Rightarrow> v, e))
       (filter (\<lambda>e. if exact (eaction e) = Some True then action_path (eaction e) = p
                     else take (length (action_path (eaction e))) p = action_path (eaction e)) es)"

definition gate_world :: "(string, string) externals" where
  "gate_world = \<lparr>invoke = gate_invoke, route_match = ordered_match\<rparr>"

definition gate_entry :: "string \<Rightarrow> bool option \<Rightarrow> variables option \<Rightarrow> entry" where
  "gate_entry m ex env =
     \<lparr>eaction = \<lparr>action_path = ''/a'', exact = ex, constraint = None, action_environment = env\<rparr>,
      ehandler = ''Gate'', emethod = m, eparameters = []\<rparr>"

definition fresh_main :: main where
  "fresh_main = \<lparr>started = False, services = [], loggers = [], filters = [], processors = []\<rparr>"

definition sample_request :: "(string, string) request" where
  "sample_request =
     \<lparr>path = ''/a'', req_input = ''in'', req_output = [],
      environment = \<lparr>local = [''user'' \<mapsto> ''ann'']\<rparr>, granted = Some True, error = None\<rparr>"

definition zone_a :: variables where
  "zone_a = [''zone'' \<mapsto> ''a'', ''user'' \<mapsto> ''guest'']"

text \<open>A denying filter before an allowing one, and one processor.\<close>

definition denying_main :: main where
  "denying_main =
     \<lparr>started = True, services = [], loggers = [''audit''],
      filters = [gate_entry ''deny'' None (Some zone_a), gate_entry ''allow'' None None],
      processors = [gate_entry ''work'' (Some True) None]\<rparr>"

text \<open>A throwing filter before an allowing one, and one processor.\<close>

definition crashing_main :: main where
  "crashing_main =
     \<lparr>started = True, services = [], loggers = [''audit''],
      filters = [gate_entry ''crash'' None None, gate_entry ''allow'' None None],
      processors = [gate_entry ''work'' (Some True) None]\<rparr>"

text \<open>An allowing filter and a processor, each with variables of its own.\<close>

definition granting_main :: main where
  "granting_main =
     \<lparr>started = True, services = [], loggers = [''audit''],
      filters = [gate_entry ''allow'' None (Some zone_a)],
      processors = [gate_entry ''work'' (Some True) (Some [''id'' \<mapsto> ''7''])]\<rparr>"

text \<open>No filter; a throwing processor before a working one.\<close>

definition open_main :: main where
  "open_main =
     \<lparr>started = True, services = [], loggers = [''audit''],
      filters = [],
      processors = [gate_entry ''crash'' (Some True) None, gate_entry ''work'' (Some True) None]\<rparr>"

text \<open>
  The routes that decorators would register for \<open>Gate\<close>: a filter, a processor that
  leaves \<open>exact\<close> undefined and a processor that sets it to false.
\<close>

definition gate_routes :: route_table where
  "gate_routes =
     addRoute (addRoute (addRoute Map.empty ''Gate''
       \<lparr>rtype = Filter,
        raction = \<lparr>action_path = ''/a'', exact = None, constraint = None,
                   action_environment = None\<rparr>,
        rmethod = ''allow''\<rparr>) ''Gate''
       \<lparr>rtype = Processor,
        raction = \<lparr>action_path = ''/a'', exact = None, constraint = None,
                   action_environment = None\<rparr>,
        rmethod = ''work''\<rparr>) ''Gate''
       \<lparr>rtype = Processor,
        raction = \<lparr>action_path = ''/a/b'', exact = Some False, constraint = None,
                   action_environment = None\<rparr>,
        rmethod = ''work''\<rparr>"

section \<open>Notification hub: properties\<close>

lemma notifyRequest_loop_Receive:
  "notifyRequest_loop Receive r ls = (None, map (\<lambda>l. OnReceive l r) ls)"
  by (induction ls) auto

lemma notifyRequest_loop_Process:
  "notifyRequest_loop Process r ls = (None, map (\<lambda>l. OnProcess l r) ls)"
  by (induction ls) auto

lemma notifyRequest_loop_Send:
  "notifyRequest_loop Send r ls = (None, map (\<lambda>l. OnSend l r) ls)"
  by (induction ls) auto

lemma notifyRequest_loop_Error:
  "notifyRequest_loop Error r ls = (None, map (\<lambda>l. OnError l r) ls)"
  by (induction ls) auto

lemma notifyAction_loop_Start:
  "notifyAction_loop Start ls = (None, map OnStart ls)"
  by (induction ls) auto

lemma notifyAction_loop_Stop:
  "notifyAction_loop Stop ls = (None, map OnStop ls)"
  by (induction ls) auto

text \<open>
  Claim C10. With no logger registered, \<open>notifyRequest\<close> and \<open>notifyAction\<close> return
  normally for every kind, valid or not, and no logger callback is made: the check of
  the kind sits inside the loop over the loggers.
\<close>

theorem notify_no_loggers:
  "loggers app = [] \<Longrightarrow>
     notifyRequest app t r = (None, []) \<and> notifyAction app a = (None, [])"
  by (simp add: notifyRequest_def notifyAction_def)

theorem notify_no_loggers_witness:
  "loggers fresh_main = [] \<and>
   notifyRequest fresh_main (OtherRequest ''ping'') sample_request = (None, []) \<and>
   (notifyAction fresh_main (OtherAction ''pause'')
      :: error option \<times> (string, string) event list) = (None, [])"
  using notify_no_loggers
    [of fresh_main "OtherRequest ''ping''" sample_request "OtherAction ''pause''"]
  by (simp add: fresh_main_def)

text \<open>
  For each kind of the enumeration \<open>notifyRequest\<close> succeeds and calls the matching
  callback of every logger, in registration order, each with the same snapshot.
\<close>

lemma notifyRequest_valid_kinds:
  "notifyRequest app Receive r = (None, map (\<lambda>l. OnReceive l r) (loggers app)) \<and>
   notifyRequest app Process r = (None, map (\<lambda>l. OnProcess l r) (loggers app)) \<and>
   notifyRequest app Send r = (None, map (\<lambda>l. OnSend l r) (loggers app)) \<and>
   notifyRequest app Error r = (None, map (\<lambda>l. OnError l r) (loggers app))"
  by (simp add: notifyRequest_def notifyRequest_loop_Receive notifyRequest_loop_Process
        notifyRequest_loop_Send notifyRequest_loop_Error)


section \<open>Dispatch pipeline: properties\<close>

lemmas gate_defs = gate_world_def gate_invoke_def ordered_match_def gate_entry_def
  fresh_main_def sample_request_def denying_main_def crashing_main_def granting_main_def
  open_main_def zone_a_def

lemmas pipeline_defs = receiveHandler_def performFilters_def filterOnMatch_def
  processorOnMatch_def processHandler_def performHandler_def filterHandler_def
  notifyRequest_def truthy_def set_local_def get_local_def Let_def

lemma notifyRequest_Error_events:
  "snd (notifyRequest app Error d) = map (\<lambda>l. OnError l d) (loggers app)"
  by (simp add: notifyRequest_def notifyRequest_loop_Error)

lemma set_local_simps:
  "granted (set_local v r) = granted r"
  "path (set_local v r) = path r"
  "error (set_local v r) = error r"
  "get_local (set_local v r) = v"
  by (simp_all add: set_local_def get_local_def)

lemma get_local_updates:
  "get_local (r\<lparr>granted := g\<rparr>) = get_local r"
  "get_local (r\<lparr>error := x\<rparr>) = get_local r"
  by (simp_all add: get_local_def)

lemma performFilters_loop_denied:
  "\<not> truthy (granted r) \<Longrightarrow> performFilters_loop W app vars l ms r = (r, [])"
  by (cases ms) auto

lemma performFilters_denied:
  "\<not> truthy (granted r) \<Longrightarrow> performFilters W app r vars = (False, r, [])"
  by (simp add: performFilters_def performFilters_loop_denied)

lemma performFilters_result:
  "performFilters W app r vars = (ok, r', evs) \<Longrightarrow> ok = truthy (granted r')"
  by (auto simp: performFilters_def split: prod.splits)

lemma receiveHandler_loop_denied:
  "\<not> truthy (granted r) \<Longrightarrow> receiveHandler_loop W app l ms r = (r, [])"
  by (cases ms) (auto simp: performFilters_denied)

lemma performFilters_loop_append:
  "performFilters_loop W app vars l (xs @ ys) r =
     (case performFilters_loop W app vars l xs r of
        (r1, ev1) \<Rightarrow>
          (case performFilters_loop W app vars l ys r1 of (r2, ev2) \<Rightarrow> (r2, ev1 @ ev2)))"
proof (induction xs arbitrary: r)
  case Nil
  show ?case by (simp split: prod.splits)
next
  case (Cons m xs)
  obtain mv e where m: "m = (mv, e)" by (cases m)
  show ?case
  proof (cases "truthy (granted r)")
    case True
    then show ?thesis
      by (simp add: m Cons.IH Let_def split: prod.splits)
  next
    case False
    then show ?thesis
      by (simp add: m performFilters_loop_denied)
  qed
qed

lemma receiveHandler_loop_append:
  "receiveHandler_loop W app l (xs @ ys) r =
     (case receiveHandler_loop W app l xs r of
        (r1, ev1) \<Rightarrow>
          (case receiveHandler_loop W app l ys r1 of (r2, ev2) \<Rightarrow> (r2, ev1 @ ev2)))"
proof (induction xs arbitrary: r)
  case Nil
  show ?case by (simp split: prod.splits)
next
  case (Cons m xs)
  obtain mv e where m: "m = (mv, e)" by (cases m)
  obtain ok r0 fevs where pf: "performFilters W app r mv = (ok, r0, fevs)"
    by (cases "performFilters W app r mv")
  show ?case
  proof (cases ok)
    case True
    then show ?thesis
      by (simp add: m pf Cons.IH Let_def split: prod.splits)
  next
    case False
    with performFilters_result [OF pf] have "\<not> truthy (granted r0)" by simp
    then have "receiveHandler_loop W app l ys r0 = (r0, [])"
      by (rule receiveHandler_loop_denied)
    with False show ?thesis
      by (simp add: m pf)
  qed
qed


lemma advanced_append: "advanced (xs @ ys) = advanced xs @ advanced ys"
  by (induction xs rule: advanced.induct) auto

lemma called_append: "called (xs @ ys) = called xs @ called ys"
  by (induction xs rule: called.induct) auto

lemma advanced_OnError: "advanced (map (\<lambda>l. OnError l d) ls) = []"
  by (induction ls) auto

lemma called_OnError: "called (map (\<lambda>l. OnError l d) ls) = []"
  by (induction ls) auto

lemma performHandler_events:
  "performHandler W app h m ps mt = (res, r', evs) \<Longrightarrow>
     advanced evs = [] \<and> called evs = [(h, m)] \<and> list_all pipeline_event evs"
  by (auto simp: performHandler_def notifyRequest_Error_events advanced_OnError called_OnError
        list_all_iff Let_def split: prod.splits outcome.splits)

lemma filterOnMatch_events:
  "filterOnMatch W app e mt = (r', evs) \<Longrightarrow>
     advanced evs = [] \<and> called evs = [(ehandler e, emethod e)] \<and> list_all pipeline_event evs"
  by (auto simp: filterOnMatch_def Let_def split: prod.splits dest: performHandler_events)

lemma processorOnMatch_events:
  "processorOnMatch W app e mt = (r', evs) \<Longrightarrow>
     advanced evs = [] \<and> called evs = [(ehandler e, emethod e)] \<and> list_all pipeline_event evs"
  by (auto simp: processorOnMatch_def processHandler_def split: prod.splits
        dest: performHandler_events)

lemma processorOnMatch_request:
  "processorOnMatch W app e mt = (r2, evs) \<Longrightarrow>
     path r2 = path (snd (invoke W (ehandler e) (emethod e) (eparameters e) mt)) \<and>
     granted r2 = granted (snd (invoke W (ehandler e) (emethod e) (eparameters e) mt))"
  by (auto simp: processorOnMatch_def processHandler_def performHandler_def Let_def
        split: prod.splits outcome.splits)

lemma filterOnMatch_granted:
  "granted (fst (filterOnMatch W app e mt)) =
     Some (fst (invoke W (ehandler e) (emethod e) (eparameters e) mt) = Returns (Boolean True))"
  by (auto simp: filterOnMatch_def filterHandler_def performHandler_def Let_def
        split: prod.splits outcome.splits)

lemma performFilters_loop_advanced:
  "\<exists>n. advanced (snd (performFilters_loop W app vars l ms r)) =
         take n (map (\<lambda>m. (Filter, snd m)) ms)"
proof (induction ms arbitrary: r)
  case Nil
  show ?case by simp
next
  case (Cons m ms)
  obtain mv e where m: "m = (mv, e)" by (cases m)
  show ?case
  proof (cases "truthy (granted r)")
    case False
    then have "advanced (snd (performFilters_loop W app vars l (m # ms) r)) =
        take 0 (map (\<lambda>m. (Filter, snd m)) (m # ms))"
      by (simp add: performFilters_loop_denied)
    then show ?thesis by blast
  next
    case True
    let ?mt = "\<lparr>variables = mv, detail = set_local (vars ++ mv ++ l) r\<rparr>"
    obtain r2 evs where f: "filterOnMatch W app e ?mt = (r2, evs)"
      by (cases "filterOnMatch W app e ?mt")
    from Cons.IH [of "set_local l r2"] obtain n where
      n: "advanced (snd (performFilters_loop W app vars l ms (set_local l r2))) =
            take n (map (\<lambda>m. (Filter, snd m)) ms)" ..
    have "advanced (snd (performFilters_loop W app vars l (m # ms) r)) =
        take (Suc n) (map (\<lambda>m. (Filter, snd m)) (m # ms))"
      using True f n filterOnMatch_events [OF f]
      by (auto simp: m Let_def advanced_append split: prod.splits)
    then show ?thesis by blast
  qed
qed

text \<open>
  Claim C1. Filter short-circuit. Let the filter candidates for the request's path be
  \<open>xs @ ys\<close>, and let the request not be granted once the candidates \<open>xs\<close> have been
  handled (a filter among them left \<open>granted\<close> false). Then the filter pass is exactly
  the run over \<open>xs\<close>: no candidate of \<open>ys\<close> is advanced and \<open>performFilters\<close> returns
  false. The processor candidate \<open>(mv, e)\<close> under consideration in \<open>receiveHandler\<close>
  is not advanced, nor is any after it: the processor loop ends with the state and the
  events of that filter pass, and the candidates advanced are filters from \<open>xs\<close>.
\<close>

theorem filter_short_circuit:
  assumes "route_match W (filters app) (path r) = xs @ ys"
    and "\<not> truthy (granted (fst (performFilters_loop W app mv (get_local r) xs r)))"
  shows "performFilters W app r mv = (False, performFilters_loop W app mv (get_local r) xs r) \<and>
         receiveHandler_loop W app l ((mv, e) # ms) r =
           performFilters_loop W app mv (get_local r) xs r \<and>
         (\<exists>n. advanced (snd (performFilters_loop W app mv (get_local r) xs r)) =
                take n (map (\<lambda>m. (Filter, snd m)) xs))"
proof -
  obtain r1 ev1 where xs: "performFilters_loop W app mv (get_local r) xs r = (r1, ev1)"
    by (cases "performFilters_loop W app mv (get_local r) xs r")
  with assms(2) have denied: "\<not> truthy (granted r1)" by simp
  then have ys: "performFilters_loop W app mv (get_local r) ys r1 = (r1, [])"
    by (rule performFilters_loop_denied)
  have pf: "performFilters W app r mv = (False, r1, ev1)"
    using denied by (simp add: performFilters_def assms(1) performFilters_loop_append xs ys)
  then have "receiveHandler_loop W app l ((mv, e) # ms) r = (r1, ev1)"
    by simp
  with pf xs performFilters_loop_advanced [of W app mv "get_local r" xs r]
  show ?thesis by simp
qed

theorem filter_short_circuit_witness:
  "route_match gate_world (filters denying_main) (path sample_request) =
     [(zone_a, gate_entry ''deny'' None (Some zone_a))] @
     [(Map.empty, gate_entry ''allow'' None None)] \<and>
   \<not> truthy (granted (fst (performFilters_loop gate_world denying_main Map.empty
        (get_local sample_request) [(zone_a, gate_entry ''deny'' None (Some zone_a))]
        sample_request))) \<and>
   fst (performFilters gate_world denying_main sample_request Map.empty) = False \<and>
   advanced (snd (snd (performFilters gate_world denying_main sample_request Map.empty))) =
     [(Filter, gate_entry ''deny'' None (Some zone_a))] \<and>
   advanced (snd (receiveHandler_loop gate_world denying_main (get_local sample_request)
        [(Map.empty, gate_entry ''work'' (Some True) None)] sample_request)) =
     [(Filter, gate_entry ''deny'' None (Some zone_a))]"
  using filter_short_circuit
    [of gate_world denying_main sample_request
        "[(zone_a, gate_entry ''deny'' None (Some zone_a))]"
        "[(Map.empty, gate_entry ''allow'' None None)]" Map.empty
        "get_local sample_request" "gate_entry ''work'' (Some True) None" "[]"]
  by (simp add: gate_defs pipeline_defs)

lemma not_advanced:
  "advanced evs = [] \<Longrightarrow> ev \<in> set evs \<Longrightarrow> ev \<noteq> Advanced k e mt"
  by (induction evs rule: advanced.induct) auto

lemma not_advanced_seen_granted: "advanced evs = [] \<Longrightarrow> list_all seen_granted evs"
  by (induction evs rule: advanced.induct) auto

lemma not_advanced_scoped: "advanced evs = [] \<Longrightarrow> list_all (scoped l seeds) evs"
  by (induction evs rule: advanced.induct) auto

lemma performFilters_loop_step:
  assumes "truthy (granted r)"
    and "filterOnMatch W app e \<lparr>variables = mv, detail = set_local (vars ++ mv ++ l) r\<rparr> = (r2, evs)"
    and "performFilters_loop W app vars l ms (set_local l r2) = (r4, evs')"
  shows "performFilters_loop W app vars l ((mv, e) # ms) r =
           (r4, Advanced Filter e \<lparr>variables = mv, detail = set_local (vars ++ mv ++ l) r\<rparr>
                # evs @ evs')"
  using assms by (simp add: Let_def)

lemma receiveHandler_loop_step:
  assumes "performFilters W app r mv = (True, r0, fevs)"
    and "processorOnMatch W app e \<lparr>variables = mv, detail = set_local (mv ++ l) r0\<rparr> = (r2, evs)"
    and "receiveHandler_loop W app l ms (set_local l r2) = (r4, evs')"
  shows "receiveHandler_loop W app l ((mv, e) # ms) r =
           (r4, fevs @ Advanced Processor e \<lparr>variables = mv, detail = set_local (mv ++ l) r0\<rparr>
                # evs @ evs')"
  using assms by (simp add: Let_def)

lemma receiveHandler_loop_stop:
  assumes "performFilters W app r mv = (False, r0, fevs)"
  shows "receiveHandler_loop W app l ((mv, e) # ms) r = (r0, fevs)"
  using assms by simp

lemma performFilters_loop_all:
  assumes adv: "\<And>mv e r. truthy (granted r) \<Longrightarrow>
      P (Advanced Filter e \<lparr>variables = mv, detail = set_local (vars ++ mv ++ l) r\<rparr>)"
    and rest: "\<And>evs. advanced evs = [] \<Longrightarrow> list_all pipeline_event evs \<Longrightarrow> list_all P evs"
  shows "list_all P (snd (performFilters_loop W app vars l ms r))"
proof (induction ms arbitrary: r)
  case Nil
  show ?case by simp
next
  case (Cons m ms)
  obtain mv e where m: "m = (mv, e)" by (cases m)
  show ?case
  proof (cases "truthy (granted r)")
    case False
    then show ?thesis by (simp add: performFilters_loop_denied)
  next
    case True
    let ?mt = "\<lparr>variables = mv, detail = set_local (vars ++ mv ++ l) r\<rparr>"
    obtain r2 evs where f: "filterOnMatch W app e ?mt = (r2, evs)"
      by (cases "filterOnMatch W app e ?mt")
    obtain r4 evs' where tl: "performFilters_loop W app vars l ms (set_local l r2) = (r4, evs')"
      by (cases "performFilters_loop W app vars l ms (set_local l r2)")
    have "list_all P evs'"
      using Cons.IH [of "set_local l r2"] by (simp add: tl)
    moreover have "list_all P evs"
      using filterOnMatch_events [OF f] by (simp add: rest)
    moreover have "P (Advanced Filter e ?mt)"
      using True by (rule adv)
    ultimately show ?thesis
      by (simp add: m performFilters_loop_step [OF True f tl] del: performFilters_loop.simps)
  qed
qed

lemma performFilters_loop_local:
  "get_local r = l \<Longrightarrow> get_local (fst (performFilters_loop W app vars l ms r)) = l"
proof (induction ms arbitrary: r)
  case Nil
  then show ?case by simp
next
  case (Cons m ms)
  obtain mv e where m: "m = (mv, e)" by (cases m)
  show ?case
  proof (cases "truthy (granted r)")
    case False
    with Cons.prems show ?thesis by (simp add: performFilters_loop_denied)
  next
    case True
    let ?mt = "\<lparr>variables = mv, detail = set_local (vars ++ mv ++ l) r\<rparr>"
    obtain r2 evs where f: "filterOnMatch W app e ?mt = (r2, evs)"
      by (cases "filterOnMatch W app e ?mt")
    obtain r4 evs' where tl: "performFilters_loop W app vars l ms (set_local l r2) = (r4, evs')"
      by (cases "performFilters_loop W app vars l ms (set_local l r2)")
    have "get_local r4 = l"
      using Cons.IH [of "set_local l r2"] by (simp add: tl set_local_simps)
    then show ?thesis
      by (simp add: m performFilters_loop_step [OF True f tl] del: performFilters_loop.simps)
  qed
qed

lemma performFilters_local:
  "performFilters W app r vars = (ok, r', evs) \<Longrightarrow> get_local r' = get_local r"
  using performFilters_loop_local
    [where r = r and l = "get_local r" and W = W and app = app and vars = vars
       and ms = "route_match W (filters app) (path r)"]
  by (auto simp: performFilters_def Let_def split: prod.splits)

lemma performFilters_all:
  assumes adv: "\<And>mv e r'. truthy (granted r') \<Longrightarrow>
      P (Advanced Filter e \<lparr>variables = mv, detail = set_local (vars ++ mv ++ get_local r) r'\<rparr>)"
    and rest: "\<And>evs. advanced evs = [] \<Longrightarrow> list_all pipeline_event evs \<Longrightarrow> list_all P evs"
  shows "list_all P (snd (snd (performFilters W app r vars)))"
  using performFilters_loop_all
    [where vars = vars and l = "get_local r" and P = P and W = W and app = app
       and ms = "route_match W (filters app) (path r)" and r = r, OF adv rest]
  by (simp add: performFilters_def Let_def case_prod_unfold)

lemma receiveHandler_loop_all:
  assumes fadv: "\<And>vars mv e r. vars \<in> S \<Longrightarrow> truthy (granted r) \<Longrightarrow>
      P (Advanced Filter e \<lparr>variables = mv, detail = set_local (vars ++ mv ++ l) r\<rparr>)"
    and padv: "\<And>mv e r. truthy (granted r) \<Longrightarrow>
      P (Advanced Processor e \<lparr>variables = mv, detail = set_local (mv ++ l) r\<rparr>)"
    and rest: "\<And>evs. advanced evs = [] \<Longrightarrow> list_all pipeline_event evs \<Longrightarrow> list_all P evs"
  shows "fst ` set ms \<subseteq> S \<Longrightarrow> get_local r = l \<Longrightarrow>
           list_all P (snd (receiveHandler_loop W app l ms r)) \<and>
           get_local (fst (receiveHandler_loop W app l ms r)) = l"
proof (induction ms arbitrary: r)
  case Nil
  then show ?case by simp
next
  case (Cons m ms)
  obtain mv e where m: "m = (mv, e)" by (cases m)
  obtain ok r0 fevs where pf: "performFilters W app r mv = (ok, r0, fevs)"
    by (cases "performFilters W app r mv")
  have mvS: "mv \<in> S" using Cons.prems(1) by (auto simp: m)
  have "list_all P (snd (snd (performFilters W app r mv)))"
    by (rule performFilters_all) (simp_all add: Cons.prems(2) fadv [OF mvS] rest)
  then have fevs: "list_all P fevs" by (simp add: pf)
  have l0: "get_local r0 = l"
    using performFilters_local [OF pf] Cons.prems(2) by simp
  show ?case
  proof (cases ok)
    case False
    with pf fevs l0 show ?thesis by (simp add: m)
  next
    case True
    let ?mt = "\<lparr>variables = mv, detail = set_local (mv ++ l) r0\<rparr>"
    obtain r2 evs where p: "processorOnMatch W app e ?mt = (r2, evs)"
      by (cases "processorOnMatch W app e ?mt")
    obtain r4 evs' where tl: "receiveHandler_loop W app l ms (set_local l r2) = (r4, evs')"
      by (cases "receiveHandler_loop W app l ms (set_local l r2)")
    from True pf have pf': "performFilters W app r mv = (True, r0, fevs)" by simp
    have "truthy (granted r0)"
      using performFilters_result [OF pf'] by simp
    then have "P (Advanced Processor e ?mt)" by (rule padv)
    moreover have "list_all P evs"
      using processorOnMatch_events [OF p] by (simp add: rest)
    moreover have "list_all P evs' \<and> get_local r4 = l"
      using Cons.IH [of "set_local l r2"] Cons.prems(1) by (simp add: tl set_local_simps)
    ultimately show ?thesis
      using fevs by (simp add: m receiveHandler_loop_step [OF pf' p tl] del: receiveHandler_loop.simps)
  qed
qed

lemma receiveHandler_all:
  assumes fadv: "\<And>vars mv e r'. vars \<in> fst ` set (route_match W (processors app) (path r)) \<Longrightarrow>
      truthy (granted r') \<Longrightarrow>
      P (Advanced Filter e \<lparr>variables = mv, detail = set_local (vars ++ mv ++ get_local r) r'\<rparr>)"
    and padv: "\<And>mv e r'. truthy (granted r') \<Longrightarrow>
      P (Advanced Processor e \<lparr>variables = mv, detail = set_local (mv ++ get_local r) r'\<rparr>)"
    and rest: "\<And>evs. advanced evs = [] \<Longrightarrow> list_all pipeline_event evs \<Longrightarrow> list_all P evs"
    and recv: "\<And>l d. P (OnReceive l d)" and proc: "\<And>l d. P (OnProcess l d)"
  shows "list_all P (snd (snd (receiveHandler W app r))) \<and>
         get_local (fst (snd (receiveHandler W app r))) = get_local r"
proof -
  let ?ms = "route_match W (processors app) (path r)"
  obtain r' evs where lp: "receiveHandler_loop W app (get_local r) ?ms r = (r', evs)"
    by (cases "receiveHandler_loop W app (get_local r) ?ms r")
  have "list_all P (snd (receiveHandler_loop W app (get_local r) ?ms r)) \<and>
        get_local (fst (receiveHandler_loop W app (get_local r) ?ms r)) = get_local r"
    by (rule receiveHandler_loop_all [where S = "fst ` set ?ms"])
       (simp_all add: fadv padv rest)
  then have "list_all P evs" "get_local r' = get_local r"
    by (simp_all add: lp)
  then show ?thesis
    by (auto simp: receiveHandler_def notifyRequest_def notifyRequest_loop_Receive
          notifyRequest_loop_Process Let_def lp list_all_iff recv proc)
qed

text \<open>
  Claim C7. \<open>receiveHandler\<close> never fails; its events are the Receive notification of
  every logger (with the request as it arrived), then the events of the processor loop,
  then the Process notification of every logger (with the request as the loop left it).
  The loop itself emits only advances, handler calls and error notifications, so the
  Receive notifications precede every handler call and the Process notifications follow
  the loop however it ended.
\<close>

theorem receive_then_process:
  "case receiveHandler_loop W app (get_local r) (route_match W (processors app) (path r)) r of
     (r', evs) \<Rightarrow>
       receiveHandler W app r =
         (None, r', map (\<lambda>l. OnReceive l r) (loggers app) @ evs @
                    map (\<lambda>l. OnProcess l r') (loggers app)) \<and>
       list_all pipeline_event evs"
proof -
  let ?ms = "route_match W (processors app) (path r)"
  have "list_all pipeline_event (snd (receiveHandler_loop W app (get_local r) ?ms r)) \<and>
        get_local (fst (receiveHandler_loop W app (get_local r) ?ms r)) = get_local r"
    by (rule receiveHandler_loop_all [where S = UNIV]) simp_all
  then show ?thesis
    by (simp add: receiveHandler_def notifyRequest_def notifyRequest_loop_Receive
          notifyRequest_loop_Process Let_def case_prod_unfold)
qed

theorem receive_then_process_witness:
  "fst (receiveHandler gate_world denying_main sample_request) = None \<and>
   fst (snd (receiveHandler gate_world denying_main sample_request)) =
     sample_request\<lparr>granted := Some False\<rparr> \<and>
   hd (snd (snd (receiveHandler gate_world denying_main sample_request))) =
     OnReceive ''audit'' sample_request \<and>
   called (snd (snd (receiveHandler gate_world denying_main sample_request))) =
     [(''Gate'', ''deny'')] \<and>
   last (snd (snd (receiveHandler gate_world denying_main sample_request))) =
     OnProcess ''audit'' (sample_request\<lparr>granted := Some False\<rparr>)"
  using receive_then_process [of gate_world denying_main sample_request]
  by (simp add: gate_defs pipeline_defs)

lemma list_all_OnReceive: "list_all seen_granted (map (\<lambda>l. OnReceive l r) ls)"
  by (induction ls) auto

lemma list_all_OnProcess: "list_all seen_granted (map (\<lambda>l. OnProcess l r) ls)"
  by (induction ls) auto

text \<open>
  Claim C8. Granted monotonicity. If the request is not granted after the filter
  candidates \<open>xs\<close>, further candidates \<open>ys\<close> change nothing: the run over \<open>xs @ ys\<close> is
  the run over \<open>xs\<close>, and the request is still not granted. The same holds for the
  processor loop. In a whole dispatch every candidate, filter or processor, is advanced
  in a state where the request is granted, so no callback runs after \<open>granted\<close> became
  false. The filter callback sets \<open>granted\<close> to true exactly when its handler returned
  \<open>true\<close>, and the processor callback does not assign it.
\<close>

theorem granted_monotone:
  "(\<not> truthy (granted (fst (performFilters_loop W app vars l xs r))) \<longrightarrow>
      performFilters_loop W app vars l (xs @ ys) r = performFilters_loop W app vars l xs r \<and>
      \<not> truthy (granted (fst (performFilters_loop W app vars l (xs @ ys) r)))) \<and>
   (\<not> truthy (granted (fst (receiveHandler_loop W app l ps r))) \<longrightarrow>
      receiveHandler_loop W app l (ps @ qs) r = receiveHandler_loop W app l ps r \<and>
      \<not> truthy (granted (fst (receiveHandler_loop W app l (ps @ qs) r)))) \<and>
   list_all seen_granted (snd (snd (receiveHandler W app r))) \<and>
   granted (fst (filterOnMatch W app e mt)) =
     Some (fst (invoke W (ehandler e) (emethod e) (eparameters e) mt) = Returns (Boolean True)) \<and>
   granted (fst (processorOnMatch W app e mt)) =
     granted (snd (invoke W (ehandler e) (emethod e) (eparameters e) mt))"
proof (intro conjI impI)
  assume a: "\<not> truthy (granted (fst (performFilters_loop W app vars l xs r)))"
  show b: "performFilters_loop W app vars l (xs @ ys) r = performFilters_loop W app vars l xs r"
    using a by (simp add: performFilters_loop_append performFilters_loop_denied case_prod_unfold)
  show "\<not> truthy (granted (fst (performFilters_loop W app vars l (xs @ ys) r)))"
    using a b by simp
next
  assume a: "\<not> truthy (granted (fst (receiveHandler_loop W app l ps r)))"
  show b: "receiveHandler_loop W app l (ps @ qs) r = receiveHandler_loop W app l ps r"
    using a by (simp add: receiveHandler_loop_append receiveHandler_loop_denied case_prod_unfold)
  show "\<not> truthy (granted (fst (receiveHandler_loop W app l (ps @ qs) r)))"
    using a b by simp
next
  show "list_all seen_granted (snd (snd (receiveHandler W app r)))"
    using receiveHandler_all [of W app r seen_granted]
    by (simp add: set_local_simps not_advanced_seen_granted)
next
  show "granted (fst (filterOnMatch W app e mt)) =
     Some (fst (invoke W (ehandler e) (emethod e) (eparameters e) mt) = Returns (Boolean True))"
    by (rule filterOnMatch_granted)
next
  show "granted (fst (processorOnMatch W app e mt)) =
     granted (snd (invoke W (ehandler e) (emethod e) (eparameters e) mt))"
    using processorOnMatch_request [of W app e mt]
    by (cases "processorOnMatch W app e mt") simp
qed

theorem granted_monotone_witness:
  "\<not> truthy (granted (fst (performFilters_loop gate_world denying_main Map.empty
        (get_local sample_request) [(zone_a, gate_entry ''deny'' None (Some zone_a))]
        sample_request))) \<and>
   \<not> truthy (granted (fst (performFilters_loop gate_world denying_main Map.empty
        (get_local sample_request)
        ([(zone_a, gate_entry ''deny'' None (Some zone_a))] @
         [(Map.empty, gate_entry ''allow'' None None)]) sample_request))) \<and>
   \<not> truthy (granted (fst (receiveHandler_loop gate_world denying_main
        (get_local sample_request) [(Map.empty, gate_entry ''work'' (Some True) None)]
        sample_request))) \<and>
   \<not> truthy (granted (fst (receiveHandler_loop gate_world denying_main
        (get_local sample_request)
        ([(Map.empty, gate_entry ''work'' (Some True) None)] @
         [(Map.empty, gate_entry ''work'' (Some True) None)]) sample_request))) \<and>
   granted (fst (snd (receiveHandler gate_world denying_main sample_request))) = Some False \<and>
   granted (fst (filterOnMatch gate_world denying_main (gate_entry ''deny'' None (Some zone_a))
        \<lparr>variables = zone_a, detail = sample_request\<rparr>)) = Some False"
  using granted_monotone
    [where W = gate_world and app = denying_main and vars = Map.empty
       and l = "get_local sample_request" and r = sample_request
       and xs = "[(zone_a, gate_entry ''deny'' None (Some zone_a))]"
       and ys = "[(Map.empty, gate_entry ''allow'' None None)]"
       and ps = "[(Map.empty, gate_entry ''work'' (Some True) None)]"
       and qs = "[(Map.empty, gate_entry ''work'' (Some True) None)]"
       and e = "gate_entry ''deny'' None (Some zone_a)"
       and mt = "\<lparr>variables = zone_a, detail = sample_request\<rparr>"]
  by (simp add: gate_defs pipeline_defs)

lemma not_advanced_keeps: "advanced evs = [] \<Longrightarrow> list_all (keeps l) evs"
  by (induction evs rule: advanced.induct) auto

lemma merged_keeps: "x \<in> dom l \<Longrightarrow> (a ++ l) x = l x"
  by (auto simp: map_add_def split: option.splits)

text \<open>
  Claim C3. Local-environment scoping and restoration. In a dispatch of \<open>r\<close>, every
  advanced filter sees as \<open>environment.local\<close> the variables of a processor candidate
  (the seed), overridden by its own variables, overridden by the local environment of
  \<open>r\<close>; every advanced processor sees its own variables overridden by the local
  environment of \<open>r\<close>; in both cases each binding of the original environment is seen
  unchanged. After the dispatch, after any number \<open>ps\<close> of processor candidates, after a
  filter pass and after any number \<open>fs\<close> of filter candidates the local environment is
  the original one again.
\<close>

theorem local_scoping:
  "list_all (scoped (get_local r) (map fst (route_match W (processors app) (path r))))
     (snd (snd (receiveHandler W app r))) \<and>
   list_all (keeps (get_local r)) (snd (snd (receiveHandler W app r))) \<and>
   get_local (fst (snd (receiveHandler W app r))) = get_local r \<and>
   get_local (fst (receiveHandler_loop W app (get_local r) ps r)) = get_local r \<and>
   list_all (scoped (get_local r) [vars]) (snd (snd (performFilters W app r vars))) \<and>
   get_local (fst (snd (performFilters W app r vars))) = get_local r \<and>
   get_local (fst (performFilters_loop W app vars (get_local r) fs r)) = get_local r"
proof (intro conjI)
  let ?seeds = "map fst (route_match W (processors app) (path r))"
  have "list_all (scoped (get_local r) ?seeds) (snd (snd (receiveHandler W app r))) \<and>
        get_local (fst (snd (receiveHandler W app r))) = get_local r"
  proof (rule receiveHandler_all)
    fix vars mv e r'
    assume "vars \<in> fst ` set (route_match W (processors app) (path r))"
    then have "vars \<in> set ?seeds" by simp
    then show "scoped (get_local r) ?seeds
        (Advanced Filter e \<lparr>variables = mv, detail = set_local (vars ++ mv ++ get_local r) r'\<rparr>)"
      by (auto simp: set_local_simps)
  qed (simp_all add: set_local_simps not_advanced_scoped)
  then show "list_all (scoped (get_local r) ?seeds) (snd (snd (receiveHandler W app r)))"
    by simp
  show "list_all (keeps (get_local r)) (snd (snd (receiveHandler W app r)))"
    using receiveHandler_all [of W app r "keeps (get_local r)"]
    by (simp add: set_local_simps not_advanced_keeps merged_keeps)
  show "get_local (fst (snd (receiveHandler W app r))) = get_local r"
    using receiveHandler_all [of W app r "\<lambda>ev. True"]
    by (simp add: list_all_iff)
  show "get_local (fst (receiveHandler_loop W app (get_local r) ps r)) = get_local r"
    using receiveHandler_loop_all [of UNIV "\<lambda>ev. True" "get_local r" ps r W app]
    by (simp add: list_all_iff)
  show "list_all (scoped (get_local r) [vars]) (snd (snd (performFilters W app r vars)))"
    by (rule performFilters_all) (simp_all add: set_local_simps not_advanced_scoped)
  show "get_local (fst (snd (performFilters W app r vars))) = get_local r"
    using performFilters_local [of W app r vars]
    by (cases "performFilters W app r vars") simp
  show "get_local (fst (performFilters_loop W app vars (get_local r) fs r)) = get_local r"
    by (rule performFilters_loop_local) simp
qed

theorem local_scoping_witness:
  "advanced (snd (snd (receiveHandler gate_world granting_main sample_request))) =
     [(Filter, gate_entry ''allow'' None (Some zone_a)),
      (Processor, gate_entry ''work'' (Some True) (Some [''id'' \<mapsto> ''7'']))] \<and>
   map (\<lambda>v. (v ''user'', v ''zone'', v ''id''))
     (seen_local (snd (snd (receiveHandler gate_world granting_main sample_request)))) =
     [(Some ''ann'', Some ''a'', Some ''7''), (Some ''ann'', None, Some ''7'')] \<and>
   list_all (scoped (get_local sample_request) [[''id'' \<mapsto> ''7'']])
     (snd (snd (receiveHandler gate_world granting_main sample_request))) \<and>
   get_local (fst (snd (receiveHandler gate_world granting_main sample_request))) =
     get_local sample_request"
  using local_scoping
    [of sample_request gate_world granting_main
        "route_match gate_world (processors granting_main) (path sample_request)"
        "[''id'' \<mapsto> ''7'']"
        "route_match gate_world (filters granting_main) (path sample_request)"]
  by (simp add: gate_defs pipeline_defs)

text \<open>
  Claim C5, as stated, fails for a filter: with a throwing filter before an allowing
  one and one matching processor, only the throwing filter is advanced and called; the
  loops do not go on to the remaining filter match nor to the processor match.
\<close>

theorem throwing_filter_counterexample:
  "map snd (route_match gate_world (filters crashing_main) (path sample_request)) =
     [gate_entry ''crash'' None None, gate_entry ''allow'' None None] \<and>
   map snd (route_match gate_world (processors crashing_main) (path sample_request)) =
     [gate_entry ''work'' (Some True) None] \<and>
   fst (gate_invoke ''Gate'' ''crash'' [] \<lparr>variables = Map.empty, detail = sample_request\<rparr>) =
     Throws ''boom'' \<and>
   advanced (snd (snd (receiveHandler gate_world crashing_main sample_request))) =
     [(Filter, gate_entry ''crash'' None None)] \<and>
   called (snd (snd (receiveHandler gate_world crashing_main sample_request))) =
     [(''Gate'', ''crash'')]"
  by (simp add: gate_defs pipeline_defs)

text \<open>
  Claim C5, amended. Let the call of the handler method of entry \<open>e\<close> on the match
  \<open>mt\<close> throw \<open>err\<close>, leaving the request as \<open>r'\<close>. Then \<open>performHandler\<close> returns
  \<open>undefined\<close>, the request carries the error, and after the call exactly one Error
  notification goes to every logger, in registration order, each with that request.
  If \<open>e\<close> is the filter candidate being advanced, the throw counts as a denial:
  \<open>granted\<close> becomes false, the local environment is restored and the filter loop ends
  without advancing the remaining candidates \<open>ms\<close>. If \<open>e\<close> is the processor candidate
  being advanced, the local environment is restored and the processor loop goes on with
  the remaining candidates \<open>ms\<close>, as after a normal return.
\<close>

theorem handler_error_isolation:
  assumes "invoke W (ehandler e) (emethod e) (eparameters e) mt = (Throws err, r')"
  shows
    "let d = r'\<lparr>error := Some err\<rparr>;
         evs = Called (ehandler e) (emethod e) (eparameters e) mt #
               map (\<lambda>l. OnError l d) (loggers app)
     in performHandler W app (ehandler e) (emethod e) (eparameters e) mt = (Undefined, d, evs) \<and>
        (truthy (granted r) \<and> mt = \<lparr>variables = mv, detail = set_local (vars ++ mv ++ l) r\<rparr> \<longrightarrow>
           performFilters_loop W app vars l ((mv, e) # ms) r =
             (set_local l (d\<lparr>granted := Some False\<rparr>), Advanced Filter e mt # evs)) \<and>
        (performFilters W app r mv = (True, r0, fevs) \<and>
         mt = \<lparr>variables = mv, detail = set_local (mv ++ l) r0\<rparr> \<longrightarrow>
           receiveHandler_loop W app l ((mv, e) # ms) r =
             (case receiveHandler_loop W app l ms (set_local l d) of
                (r4, evs') \<Rightarrow> (r4, fevs @ Advanced Processor e mt # evs @ evs')))"
proof -
  let ?d = "r'\<lparr>error := Some err\<rparr>"
  let ?evs = "Called (ehandler e) (emethod e) (eparameters e) mt #
               map (\<lambda>l. OnError l ?d) (loggers app)"
  have ph: "performHandler W app (ehandler e) (emethod e) (eparameters e) mt = (Undefined, ?d, ?evs)"
    using assms by (simp add: performHandler_def notifyRequest_Error_events Let_def)
  have fo: "filterOnMatch W app e mt = (?d\<lparr>granted := Some False\<rparr>, ?evs)"
    by (simp add: filterOnMatch_def ph filterHandler_def)
  have po: "processorOnMatch W app e mt = (?d, ?evs)"
    by (simp add: processorOnMatch_def processHandler_def ph)
  have f: "performFilters_loop W app vars l ((mv, e) # ms) r =
             (set_local l (?d\<lparr>granted := Some False\<rparr>), Advanced Filter e mt # ?evs)"
    if "truthy (granted r)" "mt = \<lparr>variables = mv, detail = set_local (vars ++ mv ++ l) r\<rparr>"
  proof -
    have "\<not> truthy (granted (set_local l (?d\<lparr>granted := Some False\<rparr>)))"
      by (simp add: set_local_simps truthy_def)
    then have "performFilters_loop W app vars l ms (set_local l (?d\<lparr>granted := Some False\<rparr>)) =
        (set_local l (?d\<lparr>granted := Some False\<rparr>), [])"
      by (rule performFilters_loop_denied)
    with that fo show ?thesis by (simp add: Let_def)
  qed
  have p: "receiveHandler_loop W app l ((mv, e) # ms) r =
             (case receiveHandler_loop W app l ms (set_local l ?d) of
                (r4, evs') \<Rightarrow> (r4, fevs @ Advanced Processor e mt # ?evs @ evs'))"
    if "performFilters W app r mv = (True, r0, fevs)"
       "mt = \<lparr>variables = mv, detail = set_local (mv ++ l) r0\<rparr>"
    using that po by (simp add: Let_def)
  from ph f p show ?thesis by (simp add: Let_def)
qed

theorem handler_error_isolation_witness:
  "invoke gate_world ''Gate'' ''crash'' []
     \<lparr>variables = Map.empty, detail = set_local (get_local sample_request) sample_request\<rparr> =
     (Throws ''boom'', sample_request) \<and>
   advanced (snd (performFilters_loop gate_world crashing_main Map.empty (get_local sample_request)
       [(Map.empty, gate_entry ''crash'' None None), (Map.empty, gate_entry ''allow'' None None)]
       sample_request)) = [(Filter, gate_entry ''crash'' None None)] \<and>
   fst (performFilters_loop gate_world crashing_main Map.empty (get_local sample_request)
       [(Map.empty, gate_entry ''crash'' None None), (Map.empty, gate_entry ''allow'' None None)]
       sample_request) = sample_request\<lparr>granted := Some False, error := Some ''boom''\<rparr> \<and>
   performFilters gate_world open_main sample_request Map.empty = (True, sample_request, []) \<and>
   called (snd (receiveHandler_loop gate_world open_main (get_local sample_request)
       [(Map.empty, gate_entry ''crash'' (Some True) None),
        (Map.empty, gate_entry ''work'' (Some True) None)] sample_request)) =
     [(''Gate'', ''crash''), (''Gate'', ''work'')] \<and>
   fst (receiveHandler_loop gate_world open_main (get_local sample_request)
       [(Map.empty, gate_entry ''crash'' (Some True) None),
        (Map.empty, gate_entry ''work'' (Some True) None)] sample_request) =
     sample_request\<lparr>error := Some ''boom'', req_output := ''ok''\<rparr>"
  using handler_error_isolation
    [where W = gate_world and e = "gate_entry ''crash'' None None"
       and mt = "\<lparr>variables = Map.empty,
                  detail = set_local (get_local sample_request) sample_request\<rparr>"
       and err = "''boom''" and r' = sample_request and app = crashing_main
       and r = sample_request and mv = Map.empty and vars = Map.empty
       and l = "get_local sample_request"
       and ms = "[(Map.empty, gate_entry ''allow'' None None)]"]
    handler_error_isolation
    [where W = gate_world and e = "gate_entry ''crash'' (Some True) None"
       and mt = "\<lparr>variables = Map.empty,
                  detail = set_local (get_local sample_request) sample_request\<rparr>"
       and err = "''boom''" and r' = sample_request and app = open_main
       and r = sample_request and mv = Map.empty and r0 = sample_request and fevs = "[]"
       and l = "get_local sample_request"
       and ms = "[(Map.empty, gate_entry ''work'' (Some True) None)]"]
  by (simp add: gate_defs pipeline_defs)

text \<open>
  Claim C2, as stated, fails: \<open>receiveHandler\<close> does not assign \<open>request.granted\<close>.
  A request that arrives with \<open>granted\<close> undefined (or false) and whose path matches no
  filter and two processors has no processor advanced or called.
\<close>

theorem ungranted_request_counterexample:
  "route_match gate_world (filters open_main) (path sample_request) = [] \<and>
   map snd (route_match gate_world (processors open_main) (path sample_request)) =
     [gate_entry ''crash'' (Some True) None, gate_entry ''work'' (Some True) None] \<and>
   advanced (snd (snd (receiveHandler gate_world open_main
     (sample_request\<lparr>granted := None\<rparr>)))) = [] \<and>
   called (snd (snd (receiveHandler gate_world open_main
     (sample_request\<lparr>granted := None\<rparr>)))) = [] \<and>
   advanced (snd (snd (receiveHandler gate_world open_main
     (sample_request\<lparr>granted := Some False\<rparr>)))) = []"
  by (simp add: gate_defs pipeline_defs)

lemma performFilters_no_filters:
  "route_match W (filters app) (path r) = [] \<Longrightarrow>
     performFilters W app r vars = (truthy (granted r), r, [])"
  by (simp add: performFilters_def)

lemma receiveHandler_loop_no_filters:
  assumes quiet: "\<forall>h m ps mt. path (snd (invoke W h m ps mt)) = path (detail mt) \<and>
      (truthy (granted (detail mt)) \<longrightarrow> truthy (granted (snd (invoke W h m ps mt))))"
  shows "truthy (granted r) \<Longrightarrow> route_match W (filters app) (path r) = [] \<Longrightarrow>
     advanced (snd (receiveHandler_loop W app l ms r)) = map (\<lambda>m. (Processor, snd m)) ms \<and>
     called (snd (receiveHandler_loop W app l ms r)) =
       map (\<lambda>m. (ehandler (snd m), emethod (snd m))) ms"
proof (induction ms arbitrary: r)
  case Nil
  show ?case by simp
next
  case (Cons m ms)
  obtain mv e where m: "m = (mv, e)" by (cases m)
  let ?mt = "\<lparr>variables = mv, detail = set_local (mv ++ l) r\<rparr>"
  have pf: "performFilters W app r mv = (True, r, [])"
    using Cons.prems by (simp add: performFilters_no_filters)
  obtain r2 evs where p: "processorOnMatch W app e ?mt = (r2, evs)"
    by (cases "processorOnMatch W app e ?mt")
  obtain r4 evs' where tl: "receiveHandler_loop W app l ms (set_local l r2) = (r4, evs')"
    by (cases "receiveHandler_loop W app l ms (set_local l r2)")
  have r2: "path r2 = path r" "truthy (granted r2)"
    using processorOnMatch_request [OF p] quiet Cons.prems(1)
    by (simp_all add: set_local_simps)
  have "advanced evs' = map (\<lambda>m. (Processor, snd m)) ms \<and>
        called evs' = map (\<lambda>m. (ehandler (snd m), emethod (snd m))) ms"
    using Cons.IH [of "set_local l r2"] r2 Cons.prems(2) by (simp add: tl set_local_simps)
  then show ?case
    using processorOnMatch_events [OF p]
    by (simp add: m receiveHandler_loop_step [OF pf p tl] advanced_append called_append
          del: receiveHandler_loop.simps)
qed

lemma advanced_OnReceive: "advanced (map (\<lambda>l. OnReceive l d) ls) = []"
  by (induction ls) auto

lemma advanced_OnProcess: "advanced (map (\<lambda>l. OnProcess l d) ls) = []"
  by (induction ls) auto

lemma called_OnReceive: "called (map (\<lambda>l. OnReceive l d) ls) = []"
  by (induction ls) auto

lemma called_OnProcess: "called (map (\<lambda>l. OnProcess l d) ls) = []"
  by (induction ls) auto

text \<open>
  Claim C2, amended. \<open>performFilters\<close> returns \<open>request.granted || false\<close> and the
  pipeline leaves \<open>granted\<close> as the request brings it. For a request that arrives
  granted and whose path matches no filter route, the filter pass returns true without
  any event and every matching processor is advanced and its handler called, in the
  router's order, provided no handler changes the path or revokes \<open>granted\<close>.
\<close>

theorem default_granted:
  assumes "truthy (granted r)"
    and "route_match W (filters app) (path r) = []"
    and "\<forall>h m ps mt. path (snd (invoke W h m ps mt)) = path (detail mt) \<and>
      (truthy (granted (detail mt)) \<longrightarrow> truthy (granted (snd (invoke W h m ps mt))))"
  shows "performFilters W app r vars = (True, r, []) \<and>
         advanced (snd (snd (receiveHandler W app r))) =
           map (\<lambda>m. (Processor, snd m)) (route_match W (processors app) (path r)) \<and>
         called (snd (snd (receiveHandler W app r))) =
           map (\<lambda>m. (ehandler (snd m), emethod (snd m)))
             (route_match W (processors app) (path r))"
proof -
  let ?ms = "route_match W (processors app) (path r)"
  obtain r' evs where lp: "receiveHandler_loop W app (get_local r) ?ms r = (r', evs)"
    by (cases "receiveHandler_loop W app (get_local r) ?ms r")
  have "advanced evs = map (\<lambda>m. (Processor, snd m)) ?ms \<and>
        called evs = map (\<lambda>m. (ehandler (snd m), emethod (snd m))) ?ms"
    using receiveHandler_loop_no_filters [OF assms(3) assms(1) assms(2), of "get_local r" ?ms]
    by (simp add: lp)
  then show ?thesis
    using assms(1,2)
    by (simp add: performFilters_no_filters receiveHandler_def notifyRequest_def
          notifyRequest_loop_Receive notifyRequest_loop_Process Let_def lp
          advanced_append called_append advanced_OnReceive advanced_OnProcess
          called_OnReceive called_OnProcess)
qed

theorem default_granted_witness:
  "truthy (granted sample_request) \<and>
   route_match gate_world (filters open_main) (path sample_request) = [] \<and>
   advanced (snd (snd (receiveHandler gate_world open_main sample_request))) =
     [(Processor, gate_entry ''crash'' (Some True) None),
      (Processor, gate_entry ''work'' (Some True) None)] \<and>
   called (snd (snd (receiveHandler gate_world open_main sample_request))) =
     [(''Gate'', ''crash''), (''Gate'', ''work'')]"
proof -
  have quiet: "\<forall>h m ps mt. path (snd (invoke gate_world h m ps mt)) = path (detail mt) \<and>
      (truthy (granted (detail mt)) \<longrightarrow> truthy (granted (snd (invoke gate_world h m ps mt))))"
    by (simp add: gate_world_def gate_invoke_def)
  have g: "truthy (granted sample_request)"
    by (simp add: truthy_def sample_request_def)
  have nf: "route_match gate_world (filters open_main) (path sample_request) = []"
    by (simp add: gate_defs)
  show ?thesis
    using default_granted [OF g nf quiet, of Map.empty] g nf
    by (simp add: gate_defs)
qed

section \<open>Configuration and lifecycle: properties\<close>

lemma notifyAction_Start: "notifyAction app Start = (None, map OnStart (loggers app))"
  by (simp add: notifyAction_def notifyAction_loop_Start)

lemma notifyAction_Stop: "notifyAction app Stop = (None, map OnStop (loggers app))"
  by (simp add: notifyAction_def notifyAction_loop_Stop)

lemma addHandler_loop_error:
  "fst (addHandler_loop h ps rs app) \<noteq> Some (JsError msg)"
  by (induction rs arbitrary: app) (auto split: route_type.splits)

lemma addHandler_loop_supported:
  "\<forall>r \<in> set rs. rtype r = Filter \<or> rtype r = Processor \<Longrightarrow>
     fst (addHandler_loop h ps rs app) = None"
  by (induction rs arbitrary: app) (auto split: route_type.splits)

text \<open>
  Claim C4. \<open>addHandler\<close> fails with its state error, and \<open>addService\<close> and
  \<open>addLogger\<close> fail, exactly when the application is started; \<open>start\<close> fails exactly
  when it is started and \<open>stop\<close> exactly when it is not. Each of these failures leaves
  the application as it was (started flag, services, loggers, both routers) and emits no
  event. The route table is an argument that no operation changes. When every route
  registered for the handler is a filter or a processor, as the decorators guarantee,
  \<open>addHandler\<close> fails in no other way.
\<close>

theorem configuration_errors:
  "((\<exists>msg. fst (addHandler routes app h ps) = Some (JsError msg)) \<longleftrightarrow> started app) \<and>
   ((\<exists>err. fst (addService app s ps) = Inl err) \<longleftrightarrow> started app) \<and>
   ((\<exists>err. fst (addLogger app lg ps) = Inl err) \<longleftrightarrow> started app) \<and>
   ((\<exists>err. fst (start app :: error option \<times> main \<times> ('i, 'o) event list) = Some err)
      \<longleftrightarrow> started app) \<and>
   ((\<exists>err. fst (stop app :: error option \<times> main \<times> ('i, 'o) event list) = Some err)
      \<longleftrightarrow> \<not> started app) \<and>
   (started app \<longrightarrow>
      snd (addHandler routes app h ps) = app \<and> snd (addService app s ps) = app \<and>
      snd (addLogger app lg ps) = app \<and>
      snd (start app :: error option \<times> main \<times> ('i, 'o) event list) = (app, [])) \<and>
   (\<not> started app \<longrightarrow>
      snd (stop app :: error option \<times> main \<times> ('i, 'o) event list) = (app, [])) \<and>
   ((\<forall>r \<in> set (case routes h of None \<Rightarrow> [] | Some list \<Rightarrow> list).
        rtype r = Filter \<or> rtype r = Processor) \<longrightarrow>
      ((\<exists>err. fst (addHandler routes app h ps) = Some err) \<longleftrightarrow> started app))"
proof (intro conjI)
  show "(\<exists>msg. fst (addHandler routes app h ps) = Some (JsError msg)) \<longleftrightarrow> started app"
    by (simp add: addHandler_def addHandler_loop_error)
  show "(\<exists>err. fst (addService app s ps) = Inl err) \<longleftrightarrow> started app"
    by (simp add: addService_def Let_def)
  show "(\<exists>err. fst (addLogger app lg ps) = Inl err) \<longleftrightarrow> started app"
    by (simp add: addLogger_def Let_def)
  show "(\<exists>err. fst (start app :: error option \<times> main \<times> ('i, 'o) event list) = Some err)
      \<longleftrightarrow> started app"
    by (simp add: start_def notifyAction_Start)
  show "(\<exists>err. fst (stop app :: error option \<times> main \<times> ('i, 'o) event list) = Some err)
      \<longleftrightarrow> \<not> started app"
    by (simp add: stop_def notifyAction_Stop)
  show "started app \<longrightarrow>
      snd (addHandler routes app h ps) = app \<and> snd (addService app s ps) = app \<and>
      snd (addLogger app lg ps) = app \<and>
      snd (start app :: error option \<times> main \<times> ('i, 'o) event list) = (app, [])"
    by (simp add: addHandler_def addService_def addLogger_def start_def)
  show "\<not> started app \<longrightarrow>
      snd (stop app :: error option \<times> main \<times> ('i, 'o) event list) = (app, [])"
    by (simp add: stop_def)
  show "(\<forall>r \<in> set (case routes h of None \<Rightarrow> [] | Some list \<Rightarrow> list).
        rtype r = Filter \<or> rtype r = Processor) \<longrightarrow>
      ((\<exists>err. fst (addHandler routes app h ps) = Some err) \<longleftrightarrow> started app)"
    by (simp add: addHandler_def addHandler_loop_supported)
qed

theorem configuration_errors_witness:
  "started denying_main \<and>
   addHandler gate_routes denying_main ''Gate'' [] =
     (Some (JsError ''To add new handlers the application must be stopped.''), denying_main) \<and>
   addService denying_main (Instance ''http'') [] =
     (Inl (JsError ''To add new services the application must be stopped.''), denying_main) \<and>
   addLogger denying_main (Class ''Console'') [] =
     (Inl (JsError ''To add new loggers service the application must be stopped.''),
      denying_main) \<and>
   (start denying_main :: error option \<times> main \<times> (string, string) event list) =
     (Some (JsError ''Application was already started.''), denying_main, []) \<and>
   \<not> started fresh_main \<and>
   (stop fresh_main :: error option \<times> main \<times> (string, string) event list) =
     (Some (JsError ''Application wasn't started.''), fresh_main, []) \<and>
   fst (addHandler gate_routes fresh_main ''Gate'' []) = None \<and>
   fst (start fresh_main :: error option \<times> main \<times> (string, string) event list) = None \<and>
   fst (stop denying_main :: error option \<times> main \<times> (string, string) event list) = None"
  using configuration_errors
      [where routes = gate_routes and app = denying_main and h = "''Gate''" and ps = "[]"
         and s = "Instance ''http''" and lg = "Class ''Console''",
       where ?'i = string and ?'o = string]
    configuration_errors
      [where routes = gate_routes and app = fresh_main and h = "''Gate''" and ps = "[]"
         and s = "Instance ''http''" and lg = "Class ''Console''",
       where ?'i = string and ?'o = string]
  by (simp add: gate_defs gate_routes_def addRoute_def addHandler_def addService_def
        addLogger_def start_def stop_def notifyAction_def)

text \<open>
  Claim C6. On a stopped application \<open>addHandler\<close> installs the routes registered for
  the handler, up to the first one of an unsupported type, in order: each filter route
  with its action unchanged, each processor route with its action unchanged except for
  \<open>exact\<close>, which is \<open>true\<close> when the route leaves it undefined and the declared value
  otherwise.
\<close>

theorem exact_defaulting:
  assumes "\<not> started app"
  shows
    "let rs = takeWhile (\<lambda>r. rtype r = Filter \<or> rtype r = Processor)
                (case routes h of None \<Rightarrow> [] | Some list \<Rightarrow> list);
         app' = snd (addHandler routes app h ps)
     in filters app' = filters app @
          map (\<lambda>r. \<lparr>eaction = raction r, ehandler = h, emethod = rmethod r, eparameters = ps\<rparr>)
            (filter (\<lambda>r. rtype r = Filter) rs) \<and>
        processors app' = processors app @
          map (\<lambda>r. \<lparr>eaction = (raction r)\<lparr>exact :=
                       Some (case exact (raction r) of None \<Rightarrow> True | Some b \<Rightarrow> b)\<rparr>,
                    ehandler = h, emethod = rmethod r, eparameters = ps\<rparr>)
            (filter (\<lambda>r. rtype r = Processor) rs)"
proof -
  have "filters (snd (addHandler_loop h ps rs app)) = filters app @
          map (\<lambda>r. \<lparr>eaction = raction r, ehandler = h, emethod = rmethod r, eparameters = ps\<rparr>)
            (filter (\<lambda>r. rtype r = Filter)
               (takeWhile (\<lambda>r. rtype r = Filter \<or> rtype r = Processor) rs)) \<and>
        processors (snd (addHandler_loop h ps rs app)) = processors app @
          map (\<lambda>r. \<lparr>eaction = (raction r)\<lparr>exact :=
                       Some (case exact (raction r) of None \<Rightarrow> True | Some b \<Rightarrow> b)\<rparr>,
                    ehandler = h, emethod = rmethod r, eparameters = ps\<rparr>)
            (filter (\<lambda>r. rtype r = Processor)
               (takeWhile (\<lambda>r. rtype r = Filter \<or> rtype r = Processor) rs))" for rs
    by (induction rs arbitrary: app) (auto split: route_type.splits option.splits)
  with assms show ?thesis
    by (simp add: addHandler_def Let_def)
qed

theorem exact_defaulting_witness:
  "\<not> started fresh_main \<and>
   addHandler gate_routes fresh_main ''Gate'' [] =
     (None,
      fresh_main
        \<lparr>filters := [gate_entry ''allow'' None None],
         processors :=
           [gate_entry ''work'' (Some True) None,
            \<lparr>eaction = \<lparr>action_path = ''/a/b'', exact = Some False, constraint = None,
                        action_environment = None\<rparr>,
             ehandler = ''Gate'', emethod = ''work'', eparameters = []\<rparr>]\<rparr>)"
  using exact_defaulting [of fresh_main gate_routes "''Gate''" "[]"]
  by (simp add: gate_defs gate_routes_def addRoute_def addHandler_def)

end
